theory Spec2Isabelle
  imports Main
begin

section \<open>Python values and strings\<close>

text \<open>
  Strings are Python \<open>str\<close> values over the code points below 256, one \<^typ>\<open>char\<close> per
  code point. Exceptions are carried as the text of their \<open>repr()\<close>, which is what the
  source interpolates into its messages with \<open>{error!r}\<close>; only exceptions derived from
  \<open>Exception\<close> are modelled, since those are what the source's \<open>except Exception\<close>
  clauses intercept.
\<close>

type_synonym exc_repr = string

text \<open>
  The objects that reach the code from YAML files and from plugins. \<open>PMapping items s\<close> is an
  instance of \<open>collections.abc.Mapping\<close> with the given \<open>items()\<close>, for which \<open>str()\<close>
  returns \<open>s\<close>. \<open>PObj s b\<close> is any other object (a number, a list, ...), described by what
  \<open>str()\<close> returns for it and by its truth value; it is not a mapping.
\<close>

datatype pyobj =
    PNone
  | PBool bool
  | PStr string
  | PMapping "(pyobj \<times> pyobj) list" string
  | PObj string bool

type_synonym pydict = "(pyobj \<times> pyobj) list"






text \<open>
  \<open>str.isspace\<close> on the code points below 256, which is the set that \<open>str.strip()\<close>
  removes: tab to carriage return, the four separators 0x1C to 0x1F, space, NEL and NBSP.
\<close>

definition py_isspace :: "char \<Rightarrow> bool" where
  "py_isspace c =
     (let n = of_char c :: nat
      in (9 \<le> n \<and> n \<le> 13) \<or> (28 \<le> n \<and> n \<le> 32) \<or> n = 133 \<or> n = 160)"

definition py_lstrip :: "string \<Rightarrow> string" where
  "py_lstrip s = dropWhile py_isspace s"

definition py_rstrip :: "string \<Rightarrow> string" where
  "py_rstrip s = rev (dropWhile py_isspace (rev s))"

definition py_strip :: "string \<Rightarrow> string" where
  "py_strip s = py_rstrip (py_lstrip s)"

text \<open>
  \<open>str.lower()\<close> on the code points below 256: the letters A to Z and the Latin-1 capitals
  0xC0 to 0xDE (the multiplication sign 0xD7 apart) move up by 32.
\<close>

definition py_lower_char :: "char \<Rightarrow> char" where
  "py_lower_char c =
     (let n = of_char c :: nat
      in if (65 \<le> n \<and> n \<le> 90) \<or> (192 \<le> n \<and> n \<le> 222 \<and> n \<noteq> 215)
         then char_of (n + 32) else c)"

definition py_lower :: "string \<Rightarrow> string" where
  "py_lower s = map py_lower_char s"

section \<open>Plugin manager (plugins.py)\<close>

record plugin_message =
  msg_source :: string
  msg_level :: string
  msg_text :: string

text \<open>
  What a task provider does when it is called with the workspace and its result is iterated:
  it raises; it returns \<open>None\<close>; it returns an object that cannot be iterated (the type name
  is kept for the \<open>TypeError\<close>); or it returns an iterable that yields the given items and
  then either stops or raises from inside the iteration. Providers and ready hooks are taken
  not to call the plugin API again while they run, so what they do to the manager is only what
  the manager does with their outcome.
\<close>

datatype provider_outcome =
    ProviderRaises exc_repr
  | ReturnsNone
  | ReturnsNonIterable string
  | Yields "pyobj list" "exc_repr option"

type_synonym task_provider = "string \<Rightarrow> provider_outcome"

text \<open>A ready hook: a name to tell hooks apart, and whether calling it raises.\<close>

record app_hook =
  hook_name :: string
  hook_raises :: "exc_repr option"

record plugin_manager =
  loaded_plugins :: "string list"
  messages :: "plugin_message list"
  static_tasks :: "(string \<times> pydict) list"
  task_providers :: "(string \<times> task_provider) list"
  app_hooks :: "(string \<times> app_hook) list"
  app_hooks_dispatched :: bool

definition new_manager :: plugin_manager where
  "new_manager =
     \<lparr>loaded_plugins = [], messages = [], static_tasks = [], task_providers = [],
      app_hooks = [], app_hooks_dispatched = False\<rparr>"

definition allowed_levels :: "string list" where
  "allowed_levels = [''info'', ''warning'', ''error'']"

definition add_message :: "plugin_manager \<Rightarrow> string \<Rightarrow> string \<Rightarrow> string \<Rightarrow> plugin_manager" where
  "add_message m src txt lvl =
     (let lvl1 = py_lower lvl;
          lvl2 = (if lvl1 \<notin> set allowed_levels then ''info'' else lvl1)
      in m\<lparr>messages := messages m @ [\<lparr>msg_source = src, msg_level = lvl2, msg_text = txt\<rparr>]\<rparr>)"

definition consume_messages :: "plugin_manager \<Rightarrow> plugin_message list \<times> plugin_manager" where
  "consume_messages m = (messages m, m\<lparr>messages := []\<rparr>)"

subsection \<open>Registration through the plugin API\<close>

text \<open>An argument that the API tests with \<open>callable()\<close>.\<close>

datatype 'f callable_arg = NonCallable | Callable 'f

definition register_task :: "plugin_manager \<Rightarrow> string \<Rightarrow> pyobj \<Rightarrow> exc_repr + plugin_manager" where
  "register_task m src mapping =
     (case mapping of
        PMapping kvs s \<Rightarrow> Inr (m\<lparr>static_tasks := static_tasks m @ [(src, kvs)]\<rparr>)
      | _ \<Rightarrow> Inl ''TypeError('Task definition must be a mapping')'')"

definition register_task_provider ::
  "plugin_manager \<Rightarrow> string \<Rightarrow> task_provider callable_arg \<Rightarrow> exc_repr + plugin_manager" where
  "register_task_provider m src provider =
     (case provider of
        NonCallable \<Rightarrow> Inl ''TypeError('Task provider must be callable')''
      | Callable p \<Rightarrow> Inr (m\<lparr>task_providers := task_providers m @ [(src, p)]\<rparr>))"

definition register_app_hook ::
  "plugin_manager \<Rightarrow> string \<Rightarrow> app_hook callable_arg \<Rightarrow> exc_repr + plugin_manager" where
  "register_app_hook m src callback =
     (case callback of
        NonCallable \<Rightarrow> Inl ''TypeError('App hook must be callable')''
      | Callable h \<Rightarrow> Inr (m\<lparr>app_hooks := app_hooks m @ [(src, h)]\<rparr>))"

text \<open>
  The calls a plugin can make on its \<open>PluginAPI\<close> object; \<open>info\<close>, \<open>warning\<close> and
  \<open>error\<close> are \<open>Log\<close> with that level.
\<close>

datatype api_call =
    AddTask pyobj
  | ProvideTasks "task_provider callable_arg"
  | OnAppReady "app_hook callable_arg"
  | Log string string

fun api_step :: "plugin_manager \<Rightarrow> string \<Rightarrow> api_call \<Rightarrow> exc_repr + plugin_manager" where
  "api_step m src (AddTask mapping) = register_task m src mapping"
| "api_step m src (ProvideTasks provider) = register_task_provider m src provider"
| "api_step m src (OnAppReady callback) = register_app_hook m src callback"
| "api_step m src (Log txt lvl) = Inr (add_message m src txt lvl)"

text \<open>
  A registration callable is the sequence of API calls it makes, then its end: it returns, or
  it raises. An API call that raises ends the callable with that exception; the manager keeps
  what the earlier calls did.
\<close>

record registration =
  reg_calls :: "api_call list"
  reg_raises :: "exc_repr option"

fun run_calls :: "plugin_manager \<Rightarrow> string \<Rightarrow> api_call list \<Rightarrow> plugin_manager \<times> exc_repr option" where
  "run_calls m src [] = (m, None)"
| "run_calls m src (c # cs) =
     (case api_step m src c of
        Inl e \<Rightarrow> (m, Some e)
      | Inr m' \<Rightarrow> run_calls m' src cs)"

definition run_registration :: "plugin_manager \<Rightarrow> string \<Rightarrow> registration \<Rightarrow> plugin_manager \<times> exc_repr option" where
  "run_registration m src r =
     (case run_calls m src (reg_calls r) of
        (m', Some e) \<Rightarrow> (m', Some e)
      | (m', None) \<Rightarrow> (m', reg_raises r))"

text \<open>
  A loaded plugin object: its \<open>register\<close> attribute when that is callable, and what calling
  the object itself does when the object is callable.
\<close>

record plugin_obj =
  po_register :: "registration option"
  po_call :: "registration option"

definition register_callable_of :: "plugin_obj \<Rightarrow> registration option" where
  "register_callable_of plugin =
     (case po_register plugin of Some r \<Rightarrow> Some r | None \<Rightarrow> po_call plugin)"

definition activate_plugin :: "plugin_manager \<Rightarrow> plugin_obj \<Rightarrow> string \<Rightarrow> plugin_manager" where
  "activate_plugin m plugin src =
     (case register_callable_of plugin of
        None \<Rightarrow>
          add_message m src
            (''Plugin exposes no callable entry point; expected 'register(api)'' @ [CHR 0x27])
            ''warning''
      | Some r \<Rightarrow>
          (case run_registration m src r of
             (m', Some e) \<Rightarrow>
               add_message m' src (''Plugin raised '' @ e @ '' during registration'') ''error''
           | (m', None) \<Rightarrow>
               add_message (m'\<lparr>loaded_plugins := loaded_plugins m' @ [src]\<rparr>) src
                 ''Registered plugin'' ''info''))"

datatype load_outcome = LoadFails exc_repr | Loads plugin_obj

text \<open>\<open>discover\<close>, over the entry points that \<open>_select_entry_points\<close> returned.\<close>

fun discover :: "plugin_manager \<Rightarrow> (string \<times> load_outcome) list \<Rightarrow> plugin_manager" where
  "discover m [] = m"
| "discover m ((name, LoadFails e) # rest) =
     discover (add_message m name (''Failed to import plugin: '' @ e) ''error'') rest"
| "discover m ((name, Loads plugin) # rest) = discover (activate_plugin m plugin name) rest"

subsection \<open>Collecting tasks\<close>

text \<open>
  The inner loop of \<open>collect_tasks\<close> over the items one provider yielded: a mapping is
  copied onto the task list, anything else is reported and skipped.
\<close>

fun collect_items ::
  "plugin_manager \<Rightarrow> string \<Rightarrow> pydict list \<Rightarrow> pyobj list \<Rightarrow> plugin_manager \<times> pydict list" where
  "collect_items m src tasks [] = (m, tasks)"
| "collect_items m src tasks (item # rest) =
     (case item of
        PMapping kvs s \<Rightarrow> collect_items m src (tasks @ [kvs]) rest
      | _ \<Rightarrow>
          collect_items
            (add_message m src ''Task provider returned a non-mapping item'' ''error'')
            src tasks rest)"

text \<open>
  The outer loop over the registered providers. Only the call of the provider is inside the
  \<open>try\<close>; an exception raised while its result is iterated leaves \<open>collect_tasks\<close>
  (result \<open>Inl\<close>), with the messages recorded so far kept in the manager.
\<close>

fun collect_providers ::
  "plugin_manager \<Rightarrow> string \<Rightarrow> pydict list \<Rightarrow> (string \<times> task_provider) list
     \<Rightarrow> plugin_manager \<times> (exc_repr + pydict list)" where
  "collect_providers m workspace tasks [] = (m, Inr tasks)"
| "collect_providers m workspace tasks ((src, provider) # rest) =
     (case provider workspace of
        ProviderRaises e \<Rightarrow>
          collect_providers (add_message m src (''Task provider raised '' @ e) ''error'')
            workspace tasks rest
      | ReturnsNone \<Rightarrow> collect_providers m workspace tasks rest
      | ReturnsNonIterable ty \<Rightarrow>
          (m, Inl (''TypeError(\"'' @ [CHR 0x27] @ ty @ [CHR 0x27] @ '' object is not iterable\")''))
      | Yields items stop \<Rightarrow>
          (case collect_items m src tasks items of
             (m', tasks') \<Rightarrow>
               (case stop of
                  None \<Rightarrow> collect_providers m' workspace tasks' rest
                | Some e \<Rightarrow> (m', Inl e))))"

definition collect_tasks :: "plugin_manager \<Rightarrow> string \<Rightarrow> plugin_manager \<times> (exc_repr + pydict list)" where
  "collect_tasks m workspace =
     collect_providers m workspace (map snd (static_tasks m)) (task_providers m)"

subsection \<open>Ready hooks\<close>

text \<open>
  The loop of \<open>dispatch_app_ready\<close>. Calling a hook is recorded in a trace of
  (source, hook name) pairs, which stands for the effect of \<open>hook(app)\<close>.
\<close>

fun run_hooks ::
  "plugin_manager \<Rightarrow> (string \<times> string) list \<Rightarrow> (string \<times> app_hook) list
     \<Rightarrow> plugin_manager \<times> (string \<times> string) list" where
  "run_hooks m trace [] = (m, trace)"
| "run_hooks m trace ((src, hook) # rest) =
     (case hook_raises hook of
        None \<Rightarrow> run_hooks m (trace @ [(src, hook_name hook)]) rest
      | Some e \<Rightarrow>
          run_hooks (add_message m src (''App hook raised '' @ e) ''error'')
            (trace @ [(src, hook_name hook)]) rest)"

definition dispatch_app_ready :: "plugin_manager \<Rightarrow> plugin_manager \<times> (string \<times> string) list" where
  "dispatch_app_ready m =
     (if app_hooks_dispatched m then (m, [])
      else run_hooks (m\<lparr>app_hooks_dispatched := True\<rparr>) [] (app_hooks m))"

section \<open>Task definitions (tasks.py)\<close>

record task_spec =
  name :: string
  command :: string
  description :: string
  working_dir :: "string option"
  env :: "(string \<times> string) list"







section \<open>Executable pre-flight check (app.py)\<close>

text \<open>\<open>s.startswith(p)\<close>.\<close>

definition startswith :: "string \<Rightarrow> string \<Rightarrow> bool" where
  "startswith s p = (take (length p) s = p)"

text \<open>
  The text before the first occurrence of a separator, which is what
  \<open>s.split(separator, 1)[0]\<close> returns when \<open>separator in s\<close>; \<open>None\<close> when the
  separator does not occur.
\<close>

fun before_first :: "string \<Rightarrow> string \<Rightarrow> string option" where
  "before_first sep [] = (if sep = [] then Some [] else None)"
| "before_first sep (c # cs) =
     (if startswith (c # cs) sep then Some []
      else map_option ((#) c) (before_first sep cs))"

definition separators :: "string list" where
  "separators = [''&&'', ''||'', ''|'', '';'', [CHR 0x0A]]"

definition truncate_at :: "string \<Rightarrow> string \<Rightarrow> string" where
  "truncate_at stripped separator =
     (case before_first separator stripped of
        Some head \<Rightarrow> py_strip head
      | None \<Rightarrow> stripped)"

subsection \<open>\<open>shlex.split(s, posix=True)\<close>\<close>

text \<open>
  The tokenizer of the standard library, as \<open>shlex.split\<close> configures it: POSIX mode,
  \<open>whitespace_split\<close> on, no comment characters, no punctuation characters. Its whitespace
  is space, tab, carriage return and newline; its quotes are the single and the double quote;
  the backslash escapes, inside double quotes too.
\<close>

definition shlex_whitespace :: "char \<Rightarrow> bool" where
  "shlex_whitespace c = (c = CHR '' '' \<or> c = CHR 0x09 \<or> c = CHR 0x0D \<or> c = CHR 0x0A)"

definition shlex_quote :: "char \<Rightarrow> bool" where
  "shlex_quote c = (c = CHR 0x27 \<or> c = CHR 0x22)"

definition shlex_escape :: "char \<Rightarrow> bool" where
  "shlex_escape c = (c = CHR 0x5C)"

text \<open>
  The states of \<open>read_token\<close>: between tokens (\<open>' '\<close>), inside a word (\<open>'a'\<close>), inside
  quotes (the state is the quote character), and after a backslash, where \<open>escapedstate\<close>
  is the state to return to (a word, or the double quote).
\<close>

datatype lex_state = InSpace | InWord | InQuote char | Escaped lex_state

text \<open>
  \<open>read_tokens st token quoted input\<close> runs the tokenizer from state \<open>st\<close> with the
  current \<open>token\<close> and \<open>quoted\<close> flag over the rest of the input and returns the tokens
  from there on, or \<open>None\<close> where the source raises \<open>ValueError\<close> (the input ends inside
  quotes or after a backslash). A token is delivered when whitespace ends it or the input
  ends; at the end of the input an empty token counts only if it was quoted.
\<close>

fun read_tokens :: "lex_state \<Rightarrow> string \<Rightarrow> bool \<Rightarrow> string \<Rightarrow> string list option" where
  "read_tokens InSpace token quoted [] = Some []"
| "read_tokens InSpace token quoted (c # cs) =
     (if shlex_whitespace c then read_tokens InSpace [] False cs
      else if shlex_escape c then read_tokens (Escaped InWord) [] False cs
      else if shlex_quote c then read_tokens (InQuote c) [] False cs
      else read_tokens InWord [c] False cs)"
| "read_tokens InWord token quoted [] =
     (if token = [] \<and> \<not> quoted then Some [] else Some [token])"
| "read_tokens InWord token quoted (c # cs) =
     (if shlex_whitespace c then
        (if token \<noteq> [] \<or> quoted then map_option ((#) token) (read_tokens InSpace [] False cs)
         else read_tokens InSpace token quoted cs)
      else if shlex_quote c then read_tokens (InQuote c) token quoted cs
      else if shlex_escape c then read_tokens (Escaped InWord) token quoted cs
      else read_tokens InWord (token @ [c]) quoted cs)"
| "read_tokens (InQuote q) token quoted [] = None"
| "read_tokens (InQuote q) token quoted (c # cs) =
     (if c = q then read_tokens InWord token True cs
      else if shlex_escape c \<and> q = CHR 0x22 then read_tokens (Escaped (InQuote q)) token True cs
      else read_tokens (InQuote q) (token @ [c]) True cs)"
| "read_tokens (Escaped st) token quoted [] = None"
| "read_tokens (Escaped st) token quoted (c # cs) =
     (case st of
        InQuote q \<Rightarrow>
          read_tokens st
            ((if \<not> shlex_escape c \<and> c \<noteq> q then token @ [CHR 0x5C] else token) @ [c]) quoted cs
      | _ \<Rightarrow> read_tokens st (token @ [c]) quoted cs)"

definition shlex_split :: "string \<Rightarrow> string list option" where
  "shlex_split s = read_tokens InSpace [] False s"

subsection \<open>The leading executable\<close>

text \<open>The loop over the tokens at the end of \<open>_extract_primary_command\<close>.\<close>

fun first_command_token :: "string list \<Rightarrow> string option" where
  "first_command_token [] = None"
| "first_command_token (token # rest) =
     (if CHR ''='' \<in> set token \<and> \<not> (startswith token [CHR 0x27] \<or> startswith token [CHR 0x22])
      then (let key = takeWhile (\<lambda>c. c \<noteq> CHR ''='') token
            in if key \<noteq> [] then first_command_token rest else Some token)
      else Some token)"

definition extract_primary_command :: "string \<Rightarrow> string option" where
  "extract_primary_command cmd =
     (let stripped = py_strip cmd
      in if stripped = [] then None
         else (case shlex_split (foldl truncate_at stripped separators) of
                 None \<Rightarrow> None
               | Some tokens \<Rightarrow> first_command_token tokens))"

section \<open>Task runner (app.py)\<close>

text \<open>
  What the code asks of the machine it runs on: \<open>shutil.which\<close>, and for a path the text
  of the \<open>OSError\<close> when writing that file fails.
\<close>

record host =
  which :: "string \<Rightarrow> string option"
  write_fails :: "string \<Rightarrow> string option"

definition detect_missing_executable :: "host \<Rightarrow> string \<Rightarrow> string option" where
  "detect_missing_executable h cmd =
     (case extract_primary_command cmd of
        None \<Rightarrow> None
      | Some snippet \<Rightarrow>
          (case which h snippet of
             Some path \<Rightarrow> if path \<noteq> [] then None else Some snippet
           | None \<Rightarrow> Some snippet))"

text \<open>
  The editor pane (editor.py): the text in the widget, the text as loaded or last saved, and
  the file it belongs to. \<open>saved\<close> lists the \<open>FileSaved\<close> messages posted, as (path, bytes
  written); paths are kept resolved, so \<open>resolve()\<close> is the identity here.
\<close>

record editor_pane =
  editor_text :: string
  loaded_text :: string
  current_path :: "string option"
  saved :: "(string \<times> nat) list"

definition is_dirty :: "editor_pane \<Rightarrow> bool" where
  "is_dirty e = (editor_text e \<noteq> loaded_text e)"

text \<open>The length of the UTF-8 encoding: two bytes for a code point from 128 to 255.\<close>

definition utf8_length :: "string \<Rightarrow> nat" where
  "utf8_length s = length s + length (filter (\<lambda>c. 128 \<le> (of_char c :: nat)) s)"

text \<open>\<open>EditorPane.save()\<close> without a path; \<open>Inl\<close> carries the text of the \<open>EditorError\<close>.\<close>

definition editor_save :: "host \<Rightarrow> editor_pane \<Rightarrow> string + editor_pane" where
  "editor_save h e =
     (case current_path e of
        None \<Rightarrow> Inl ''No file selected to save''
      | Some target \<Rightarrow>
          (case write_fails h target of
             Some err \<Rightarrow> Inl (''Unable to save file '' @ target @ '': '' @ err)
           | None \<Rightarrow>
               Inr (e\<lparr>current_path := Some target, loaded_text := editor_text e,
                      saved := saved e @ [(target, utf8_length (editor_text e))]\<rparr>)))"

datatype severity = Information | Warning | Error

text \<open>
  The \<open>asyncio.Task\<close> that runs \<open>_execute_task(task)\<close>, as far as \<open>_start_task\<close> looks at
  it: the task it runs and whether it is done.
\<close>

record task_handle =
  handle_task :: task_spec
  handle_done :: bool

text \<open>
  The application state that \<open>_start_task\<close> reads and writes: the autosave setting of the
  configuration, the editor, the handle of the running task, the notifications sent with
  \<open>notify\<close>, the lines written to the console, and the tasks for which a coroutine running
  the command in a subprocess was scheduled with \<open>asyncio.create_task\<close>.
\<close>

record debide_app =
  autosave :: bool
  editor :: editor_pane
  running_task :: "task_handle option"
  notifications :: "(string \<times> severity) list"
  console :: "string list"
  scheduled :: "task_spec list"

definition notify :: "debide_app \<Rightarrow> string \<Rightarrow> severity \<Rightarrow> debide_app" where
  "notify app message sev = app\<lparr>notifications := notifications app @ [(message, sev)]\<rparr>"

definition log :: "debide_app \<Rightarrow> string \<Rightarrow> debide_app" where
  "log app message = app\<lparr>console := console app @ [message]\<rparr>"

definition missing_message :: "string \<Rightarrow> string" where
  "missing_message missing =
     ''Command '' @ [CHR 0x27] @ missing @ [CHR 0x27] @ '' is not available on PATH. '' @
     ''Check that required packages are installed.''"

definition start_task :: "host \<Rightarrow> debide_app \<Rightarrow> task_spec \<Rightarrow> debide_app" where
  "start_task h app task =
     (if (case running_task app of None \<Rightarrow> False | Some t \<Rightarrow> \<not> handle_done t) then
        notify app ''A task is already running'' Warning
      else
        (let app1 =
               (if autosave app \<and> is_dirty (editor app) \<and> current_path (editor app) \<noteq> None
                then (case editor_save h (editor app) of
                        Inl err \<Rightarrow> notify app (''Autosave failed: '' @ err) Error
                      | Inr e \<Rightarrow> app\<lparr>editor := e\<rparr>)
                else app)
         in case detect_missing_executable h (command task) of
              None \<Rightarrow>
                app1\<lparr>running_task := Some \<lparr>handle_task = task, handle_done = False\<rparr>,
                     scheduled := scheduled app1 @ [task]\<rparr>
            | Some missing \<Rightarrow>
                if missing \<noteq> [] then
                  notify (log app1 (''[red]'' @ missing_message missing @ ''[/red]''))
                    (missing_message missing) Error
                else
                  app1\<lparr>running_task := Some \<lparr>handle_task = task, handle_done = False\<rparr>,
                       scheduled := scheduled app1 @ [task]\<rparr>))"

text \<open>
  The done callback \<open>_handle_task_completion\<close>: \<open>None\<close> for a cancelled task, otherwise
  the text of the exception the task ended with, if any.
\<close>

datatype completion = Cancelled | Finished "string option"

definition handle_task_completion :: "debide_app \<Rightarrow> completion \<Rightarrow> debide_app" where
  "handle_task_completion app outcome =
     (case outcome of
        Cancelled \<Rightarrow> (log app ''[yellow]Task cancelled[/yellow]'')\<lparr>running_task := None\<rparr>
      | Finished None \<Rightarrow> app\<lparr>running_task := None\<rparr>
      | Finished (Some exception) \<Rightarrow>
          (notify (log app (''[red]Task failed: '' @ exception @ ''[/red]'')) exception Error)
            \<lparr>running_task := None\<rparr>)"

section \<open>Notions used in the statements\<close>

text \<open>The level that \<open>_add_message\<close> stores for a given level argument.\<close>

definition normal_level :: "string \<Rightarrow> string" where
  "normal_level lvl = (if py_lower lvl \<in> set allowed_levels then py_lower lvl else ''info'')"

text \<open>The invariant of the message queue: every queued message has an allowed level.\<close>

definition levels_ok :: "plugin_manager \<Rightarrow> bool" where
  "levels_ok m = list_all (\<lambda>x. msg_level x \<in> set allowed_levels) (messages m)"

text \<open>Recording a sequence of (source, text, level) entries, one \<open>_add_message\<close> each.\<close>

fun record_all :: "plugin_manager \<Rightarrow> (string \<times> string \<times> string) list \<Rightarrow> plugin_manager" where
  "record_all m [] = m"
| "record_all m ((src, msg, lvl) # rest) = record_all (add_message m src msg lvl) rest"

definition queued :: "string \<times> string \<times> string \<Rightarrow> plugin_message" where
  "queued e = (case e of (src, msg, lvl) \<Rightarrow>
     \<lparr>msg_source = src, msg_level = normal_level lvl, msg_text = msg\<rparr>)"

text \<open>The error messages the ready hooks of a list leave behind: one for each hook that raises.\<close>

fun hook_errors :: "(string \<times> app_hook) list \<Rightarrow> plugin_message list" where
  "hook_errors [] = []"
| "hook_errors ((src, hook) # rest) =
     (case hook_raises hook of
        None \<Rightarrow> hook_errors rest
      | Some e \<Rightarrow>
          \<lparr>msg_source = src, msg_level = ''error'', msg_text = ''App hook raised '' @ e\<rparr>
            # hook_errors rest)"







text \<open>
  The API calls of a registration that take effect: those before the first call that raises.
  Whether a call raises depends on its argument alone.
\<close>

fun call_raises :: "api_call \<Rightarrow> exc_repr option" where
  "call_raises (AddTask (PMapping kvs s)) = None"
| "call_raises (AddTask _) = Some ''TypeError('Task definition must be a mapping')''"
| "call_raises (ProvideTasks NonCallable) = Some ''TypeError('Task provider must be callable')''"
| "call_raises (OnAppReady NonCallable) = Some ''TypeError('App hook must be callable')''"
| "call_raises _ = None"

fun performed :: "api_call list \<Rightarrow> api_call list" where
  "performed [] = []"
| "performed (c # cs) = (case call_raises c of None \<Rightarrow> c # performed cs | Some e \<Rightarrow> [])"

fun first_raise :: "api_call list \<Rightarrow> exc_repr option" where
  "first_raise [] = None"
| "first_raise (c # cs) = (case call_raises c of None \<Rightarrow> first_raise cs | Some e \<Rightarrow> Some e)"

definition registration_failure :: "registration \<Rightarrow> exc_repr option" where
  "registration_failure r =
     (case first_raise (reg_calls r) of Some e \<Rightarrow> Some e | None \<Rightarrow> reg_raises r)"

fun added_tasks :: "string \<Rightarrow> api_call list \<Rightarrow> (string \<times> pydict) list" where
  "added_tasks src [] = []"
| "added_tasks src (AddTask (PMapping kvs s) # cs) = (src, kvs) # added_tasks src cs"
| "added_tasks src (_ # cs) = added_tasks src cs"

fun added_providers :: "string \<Rightarrow> api_call list \<Rightarrow> (string \<times> task_provider) list" where
  "added_providers src [] = []"
| "added_providers src (ProvideTasks (Callable p) # cs) = (src, p) # added_providers src cs"
| "added_providers src (_ # cs) = added_providers src cs"

fun added_hooks :: "string \<Rightarrow> api_call list \<Rightarrow> (string \<times> app_hook) list" where
  "added_hooks src [] = []"
| "added_hooks src (OnAppReady (Callable h) # cs) = (src, h) # added_hooks src cs"
| "added_hooks src (_ # cs) = added_hooks src cs"

fun logged :: "string \<Rightarrow> api_call list \<Rightarrow> plugin_message list" where
  "logged src [] = []"
| "logged src (Log msg lvl # cs) = queued (src, msg, lvl) # logged src cs"
| "logged src (_ # cs) = logged src cs"

text \<open>The entry points of a discovery run whose plugin loads and registers without raising.\<close>

fun registered_names :: "(string \<times> load_outcome) list \<Rightarrow> string list" where
  "registered_names [] = []"
| "registered_names ((entry, LoadFails e) # rest) = registered_names rest"
| "registered_names ((entry, Loads plugin) # rest) =
     (case register_callable_of plugin of
        None \<Rightarrow> registered_names rest
      | Some r \<Rightarrow>
          (case registration_failure r of
             None \<Rightarrow> entry # registered_names rest
           | Some e \<Rightarrow> registered_names rest))"

text \<open>A manager with three ready hooks registered, the second of which raises.\<close>

definition three_hooks :: plugin_manager where
  "three_hooks = new_manager\<lparr>app_hooks :=
       [(''a'', \<lparr>hook_name = ''h1'', hook_raises = None\<rparr>),
        (''b'', \<lparr>hook_name = ''h2'', hook_raises = Some ''ValueError()''\<rparr>),
        (''c'', \<lparr>hook_name = ''h3'', hook_raises = None\<rparr>)]\<rparr>"

text \<open>
  Two plugins for a discovery run: the first adds a task, logs, and then raises; the second
  registers a provider and returns.
\<close>

definition failing_registration :: registration where
  "failing_registration =
     \<lparr>reg_calls = [AddTask (PMapping [(PStr ''name'', PStr ''early'')] ''{...}''),
                   Log ''about to fail'' ''warning''],
      reg_raises = Some ''RuntimeError('boom')''\<rparr>"

definition good_registration :: registration where
  "good_registration = \<lparr>reg_calls = [Log ''ready'' ''info''], reg_raises = None\<rparr>"

definition two_entries :: "(string \<times> load_outcome) list" where
  "two_entries =
     [(''bad'', Loads \<lparr>po_register = Some failing_registration, po_call = None\<rparr>),
      (''good'', Loads \<lparr>po_register = None, po_call = Some good_registration\<rparr>)]"

text \<open>
  The example of the specification for \<open>collectTasks\<close>: one static task and two providers,
  the first raising, the second returning the single task lint.
\<close>

definition lint_task :: pydict where
  "lint_task = [(PStr ''name'', PStr ''lint''), (PStr ''command'', PStr ''flake8'')]"




text \<open>A provider that returns a number, followed by a provider that returns the task lint.\<close>

definition number_provider :: plugin_manager where
  "number_provider = new_manager
     \<lparr>task_providers :=
        [(''number'', \<lambda>workspace. ReturnsNonIterable ''int''),
         (''second'', \<lambda>workspace. Yields [PMapping lint_task ''{...}''] None)]\<rparr>"






text \<open>
  A token that the loop of \<open>_extract_primary_command\<close> passes over: it contains \<open>=\<close>, does
  not begin with a quote character, and has a non-empty key before the first \<open>=\<close>.
\<close>

definition looks_like_assignment :: "string \<Rightarrow> bool" where
  "looks_like_assignment token =
     (CHR ''='' \<in> set token
      \<and> \<not> (startswith token [CHR 0x27] \<or> startswith token [CHR 0x22])
      \<and> takeWhile (\<lambda>c. c \<noteq> CHR ''='') token \<noteq> [])"

text \<open>Whether a task is in flight, as the guard at the head of \<open>_start_task\<close> tests it.\<close>

definition in_flight :: "debide_app \<Rightarrow> bool" where
  "in_flight app = (case running_task app of None \<Rightarrow> False | Some t \<Rightarrow> \<not> handle_done t)"

text \<open>The notification of a failed autosave, if \<open>_start_task\<close> tries to save and fails.\<close>

definition autosave_failure :: "host \<Rightarrow> debide_app \<Rightarrow> (string \<times> severity) list" where
  "autosave_failure h app =
     (if autosave app \<and> is_dirty (editor app) \<and> current_path (editor app) \<noteq> None
      then (case editor_save h (editor app) of
              Inl err \<Rightarrow> [(''Autosave failed: '' @ err, Error)]
            | Inr e \<Rightarrow> [])
      else [])"

text \<open>
  A machine with nothing on the search path, an application that has just started, and
  example tasks: a tool that does not exist, an empty quoted word as the command name, and a
  quoted word with an equals sign in front of the command.
\<close>

definition bare_host :: host where
  "bare_host = \<lparr>which = (\<lambda>exe. None), write_fails = (\<lambda>path. None)\<rparr>"

definition fresh_app :: debide_app where
  "fresh_app =
     \<lparr>autosave = False,
      editor = \<lparr>editor_text = [], loaded_text = [], current_path = None, saved = []\<rparr>,
      running_task = None, notifications = [], console = [], scheduled = []\<rparr>"

definition demo_task :: "string \<Rightarrow> task_spec" where
  "demo_task cmd =
     \<lparr>name = ''demo'', command = cmd, description = [], working_dir = None, env = []\<rparr>"


definition missing_tool :: string where
  "missing_tool = ''nonexistent-tool-xyz --flag''"

definition empty_word_command :: string where
  "empty_word_command = [CHR 0x27, CHR 0x27] @ '' --flag''"

definition quoted_assignment_command :: string where
  "quoted_assignment_command = [CHR 0x27] @ ''FOO=1'' @ [CHR 0x27] @ '' ls''"

text \<open>
  Cutting a string at the first occurrence of one separator, and at the first occurrence of
  any of the five separators (an occurrence of \<open>||\<close> is also one of \<open>|\<close>). These describe
  what the loop over the separators in \<open>_extract_primary_command\<close> computes, up to
  whitespace at the end.
\<close>

fun cut_at :: "string \<Rightarrow> string \<Rightarrow> string" where
  "cut_at sep [] = []"
| "cut_at sep (c # cs) = (if startswith (c # cs) sep then [] else c # cut_at sep cs)"

fun first_segment :: "string \<Rightarrow> string" where
  "first_segment [] = []"
| "first_segment (c # cs) =
     (if c = CHR ''|'' \<or> c = CHR '';'' \<or> c = CHR 0x0A \<or> (c = CHR ''&'' \<and> startswith cs ''&'')
      then [] else c # first_segment cs)"

text \<open>The command of the specification's example, in three parts.\<close>

definition example_head :: string where
  "example_head = ''FOO=1 dpkg-buildpackage -us -uc ''"

definition example_tail :: string where
  "example_tail = '' echo done''"

section \<open>Properties of the plugin manager\<close>

lemma messages_add_message:
  "messages (add_message m src txt lvl) =
     messages m @ [\<lparr>msg_source = src, msg_level = normal_level lvl, msg_text = txt\<rparr>]"
  by (simp add: add_message_def normal_level_def Let_def)

lemma add_message_other [simp]:
  "loaded_plugins (add_message m src txt lvl) = loaded_plugins m"
  "static_tasks (add_message m src txt lvl) = static_tasks m"
  "task_providers (add_message m src txt lvl) = task_providers m"
  "app_hooks (add_message m src txt lvl) = app_hooks m"
  "app_hooks_dispatched (add_message m src txt lvl) = app_hooks_dispatched m"
  by (simp_all add: add_message_def Let_def)

lemma normal_level_allowed: "normal_level lvl \<in> set allowed_levels"
  by (simp add: normal_level_def allowed_levels_def)

lemma levels_ok_add_message: "levels_ok m \<Longrightarrow> levels_ok (add_message m src txt lvl)"
  by (simp add: levels_ok_def messages_add_message normal_level_allowed)

lemma levels_ok_api_step:
  assumes "levels_ok m" and "api_step m src c = Inr m'"
  shows "levels_ok m'"
proof (cases c)
  case (AddTask x)
  with assms show ?thesis
    by (auto simp: register_task_def levels_ok_def split: pyobj.splits)
next
  case (ProvideTasks x)
  with assms show ?thesis
    by (auto simp: register_task_provider_def levels_ok_def split: callable_arg.splits)
next
  case (OnAppReady x)
  with assms show ?thesis
    by (auto simp: register_app_hook_def levels_ok_def split: callable_arg.splits)
next
  case (Log msg lvl)
  with assms show ?thesis
    by (auto simp: levels_ok_add_message)
qed

lemma levels_ok_run_calls: "levels_ok m \<Longrightarrow> levels_ok (fst (run_calls m src cs))"
proof (induction cs arbitrary: m)
  case Nil
  then show ?case by simp
next
  case (Cons c cs)
  show ?case
  proof (cases "api_step m src c")
    case (Inl e)
    with Cons.prems show ?thesis by simp
  next
    case (Inr m')
    with Cons.prems have "levels_ok m'" by (auto dest: levels_ok_api_step)
    with Cons.IH Inr show ?thesis by simp
  qed
qed

lemma levels_ok_run_registration: "levels_ok m \<Longrightarrow> levels_ok (fst (run_registration m src r))"
  using levels_ok_run_calls [of m src "reg_calls r"]
  by (auto simp: run_registration_def split: prod.splits option.splits)

lemma levels_ok_loaded [simp]: "levels_ok (m\<lparr>loaded_plugins := x\<rparr>) = levels_ok m"
  by (simp add: levels_ok_def)

lemma levels_ok_run_registration_eq:
  "levels_ok m \<Longrightarrow> run_registration m src r = (m', out) \<Longrightarrow> levels_ok m'"
  using levels_ok_run_registration [of m src r] by simp

lemma levels_ok_activate_plugin: "levels_ok m \<Longrightarrow> levels_ok (activate_plugin m p src)"
  by (auto simp: activate_plugin_def split: option.splits prod.splits
      intro!: levels_ok_add_message dest: levels_ok_run_registration_eq)

lemma levels_ok_discover: "levels_ok m \<Longrightarrow> levels_ok (discover m es)"
  by (induction m es rule: discover.induct)
     (simp_all add: levels_ok_add_message levels_ok_activate_plugin)

lemma levels_ok_collect_items: "levels_ok m \<Longrightarrow> levels_ok (fst (collect_items m src tasks items))"
  by (induction m src tasks items rule: collect_items.induct)
     (auto simp: levels_ok_add_message split: pyobj.splits)

lemma levels_ok_collect_providers:
  "levels_ok m \<Longrightarrow> levels_ok (fst (collect_providers m ws tasks ps))"
proof (induction m ws tasks ps rule: collect_providers.induct)
  case (1 m ws tasks)
  then show ?case by simp
next
  case (2 m ws tasks src provider rest)
  show ?case
  proof (cases "provider ws")
    case (ProviderRaises e)
    with 2 show ?thesis by (simp add: levels_ok_add_message)
  next
    case ReturnsNone
    with 2 show ?thesis by simp
  next
    case (ReturnsNonIterable ty)
    with 2 show ?thesis by simp
  next
    case (Yields items stop)
    obtain m' tasks' where ci: "collect_items m src tasks items = (m', tasks')"
      by (cases "collect_items m src tasks items")
    from "2.prems" have ok: "levels_ok m'"
      using levels_ok_collect_items [of m src tasks items] ci by simp
    show ?thesis
    proof (cases stop)
      case None
      with 2 Yields ci ok show ?thesis by simp
    next
      case (Some e)
      with Yields ci ok show ?thesis by simp
    qed
  qed
qed

lemma levels_ok_run_hooks: "levels_ok m \<Longrightarrow> levels_ok (fst (run_hooks m tr hs))"
  by (induction m tr hs rule: run_hooks.induct)
     (auto simp: levels_ok_add_message split: option.splits)

lemma levels_ok_dispatched [simp]: "levels_ok (m\<lparr>app_hooks_dispatched := x\<rparr>) = levels_ok m"
  by (simp add: levels_ok_def)

text \<open>
  Claim C10. Whatever level string is passed to \<open>_add_message\<close> (directly or through a
  plugin's \<open>log\<close> call), the stored level is the lowercased argument when that is one of
  info, warning, error, and info otherwise; and every operation of the manager that records
  or returns messages keeps all queued levels inside these three.
\<close>

theorem message_levels_invariant:
  "msg_level (last (messages (add_message m src txt lvl))) =
     (if py_lower lvl \<in> set allowed_levels then py_lower lvl else ''info'')
   \<and> levels_ok new_manager
   \<and> (levels_ok m \<longrightarrow>
        levels_ok (add_message m src txt lvl)
      \<and> (\<forall>m'. api_step m src call = Inr m' \<longrightarrow> levels_ok m')
      \<and> levels_ok (activate_plugin m plugin src)
      \<and> levels_ok (discover m entries)
      \<and> levels_ok (fst (collect_tasks m workspace))
      \<and> levels_ok (fst (dispatch_app_ready m))
      \<and> levels_ok (snd (consume_messages m))
      \<and> list_all (\<lambda>x. msg_level x \<in> set allowed_levels) (fst (consume_messages m)))"
proof -
  have a: "msg_level (last (messages (add_message m src txt lvl))) =
     (if py_lower lvl \<in> set allowed_levels then py_lower lvl else ''info'')"
    by (simp add: messages_add_message normal_level_def)
  have b: "levels_ok new_manager"
    by (simp add: levels_ok_def new_manager_def)
  have c: "levels_ok (fst (collect_tasks m workspace))" if "levels_ok m"
    using that by (simp add: collect_tasks_def levels_ok_collect_providers)
  have d: "levels_ok (fst (dispatch_app_ready m))" if "levels_ok m"
    using that by (simp add: dispatch_app_ready_def levels_ok_run_hooks)
  have e: "levels_ok (snd (consume_messages m))"
    by (simp add: consume_messages_def levels_ok_def)
  have f: "list_all (\<lambda>x. msg_level x \<in> set allowed_levels) (fst (consume_messages m))"
    if "levels_ok m"
    using that by (simp add: consume_messages_def levels_ok_def)
  show ?thesis
    using a b c d e f levels_ok_add_message levels_ok_api_step levels_ok_activate_plugin
      levels_ok_discover
    by blast
qed

theorem message_levels_invariant_witness:
  "levels_ok new_manager
   \<and> msg_level (last (messages (add_message new_manager ''demo'' ''hello'' ''DEBUG''))) = ''info''
   \<and> levels_ok (add_message new_manager ''demo'' ''hello'' ''DEBUG'')
   \<and> levels_ok (fst (dispatch_app_ready new_manager))"
  using message_levels_invariant [of new_manager "''demo''" "''hello''" "''DEBUG''"]
  by (simp add: py_lower_def py_lower_char_def allowed_levels_def char_of_def)

lemma messages_record_all:
  "messages (record_all m es) = messages m @ map queued es"
  by (induction m es rule: record_all.induct) (simp_all add: messages_add_message queued_def)

text \<open>
  Claim C9. \<open>consume_messages\<close> drains once: a call returns the whole queue in the order
  in which the messages were recorded and leaves the queue empty (nothing else in the manager
  changes), so a second call right after it returns nothing; messages recorded after a call
  are exactly what the next call returns.
\<close>

theorem consume_messages_drain_once:
  "fst (consume_messages m) = messages m
   \<and> snd (consume_messages m) = m\<lparr>messages := []\<rparr>
   \<and> fst (consume_messages (snd (consume_messages m))) = []
   \<and> fst (consume_messages (record_all (snd (consume_messages m)) es)) = map queued es
   \<and> fst (consume_messages (record_all m es)) = messages m @ map queued es"
  by (simp add: consume_messages_def messages_record_all)

theorem consume_messages_drain_once_witness:
  "fst (consume_messages (record_all new_manager [(''p'', ''one'', ''info''), (''q'', ''two'', ''Error'')]))
     = [\<lparr>msg_source = ''p'', msg_level = ''info'', msg_text = ''one''\<rparr>,
        \<lparr>msg_source = ''q'', msg_level = ''error'', msg_text = ''two''\<rparr>]
   \<and> fst (consume_messages (snd (consume_messages
          (record_all new_manager [(''p'', ''one'', ''info''), (''q'', ''two'', ''Error'')])))) = []"
proof -
  let ?es = "[(''p'', ''one'', ''info''), (''q'', ''two'', ''Error'')]"
  have a: "map queued ?es =
      [\<lparr>msg_source = ''p'', msg_level = ''info'', msg_text = ''one''\<rparr>,
       \<lparr>msg_source = ''q'', msg_level = ''error'', msg_text = ''two''\<rparr>]"
    by code_simp
  have b: "messages new_manager = []"
    by (simp add: new_manager_def)
  have "fst (consume_messages (record_all new_manager ?es)) = messages new_manager @ map queued ?es"
    using consume_messages_drain_once [of new_manager ?es] by blast
  then have 1: "fst (consume_messages (record_all new_manager ?es)) =
      [\<lparr>msg_source = ''p'', msg_level = ''info'', msg_text = ''one''\<rparr>,
       \<lparr>msg_source = ''q'', msg_level = ''error'', msg_text = ''two''\<rparr>]"
    by (simp only: a b append_Nil)
  have 2: "fst (consume_messages (snd (consume_messages (record_all new_manager ?es)))) = []"
    using consume_messages_drain_once [of "record_all new_manager ?es" "[]"] by blast
  show ?thesis using 1 2 by (rule conjI)
qed

lemma run_hooks_result:
  "run_hooks m tr hs =
     (m\<lparr>messages := messages m @ hook_errors hs\<rparr>, tr @ map (\<lambda>(s, h). (s, hook_name h)) hs)"
proof (induction m tr hs rule: run_hooks.induct)
  case (1 m tr)
  then show ?case by simp
next
  case (2 m tr src hook rest)
  then show ?case
    by (cases "hook_raises hook") (simp_all add: add_message_def Let_def allowed_levels_def
        py_lower_def py_lower_char_def)
qed

text \<open>
  Claim C8. \<open>dispatch_app_ready\<close> is idempotent. On a manager that has not dispatched yet
  it calls every registered hook once, in registration order, records one error message for
  each hook that raises and goes on to the hooks after it, and sets the dispatched flag. On a
  manager that has dispatched it calls no hook and changes nothing; in particular a second
  call right after any call is such a no-op.
\<close>

theorem dispatch_app_ready_once:
  "(\<not> app_hooks_dispatched m \<longrightarrow>
      snd (dispatch_app_ready m) = map (\<lambda>(s, h). (s, hook_name h)) (app_hooks m)
    \<and> fst (dispatch_app_ready m) =
        m\<lparr>messages := messages m @ hook_errors (app_hooks m), app_hooks_dispatched := True\<rparr>)
   \<and> (app_hooks_dispatched m \<longrightarrow> dispatch_app_ready m = (m, []))
   \<and> dispatch_app_ready (fst (dispatch_app_ready m)) = (fst (dispatch_app_ready m), [])"
  by (simp add: dispatch_app_ready_def run_hooks_result)

theorem dispatch_app_ready_once_witness:
  "snd (dispatch_app_ready three_hooks) = [(''a'', ''h1''), (''b'', ''h2''), (''c'', ''h3'')]
   \<and> messages (fst (dispatch_app_ready three_hooks)) =
       [\<lparr>msg_source = ''b'', msg_level = ''error'', msg_text = ''App hook raised ValueError()''\<rparr>]
   \<and> snd (dispatch_app_ready (fst (dispatch_app_ready three_hooks))) = []"
proof -
  have h: "\<not> app_hooks_dispatched three_hooks"
    by (simp add: three_hooks_def new_manager_def)
  note t = dispatch_app_ready_once [of three_hooks]
  from t h have "snd (dispatch_app_ready three_hooks) =
      map (\<lambda>(s, h). (s, hook_name h)) (app_hooks three_hooks)"
    by blast
  then have 1: "snd (dispatch_app_ready three_hooks) = [(''a'', ''h1''), (''b'', ''h2''), (''c'', ''h3'')]"
    by (simp add: three_hooks_def new_manager_def)
  from t h have "fst (dispatch_app_ready three_hooks) =
      three_hooks\<lparr>messages := messages three_hooks @ hook_errors (app_hooks three_hooks),
        app_hooks_dispatched := True\<rparr>"
    by blast
  then have 2: "messages (fst (dispatch_app_ready three_hooks)) =
       [\<lparr>msg_source = ''b'', msg_level = ''error'', msg_text = ''App hook raised ValueError()''\<rparr>]"
    by (simp add: three_hooks_def new_manager_def)
  from t have 3: "snd (dispatch_app_ready (fst (dispatch_app_ready three_hooks))) = []"
    by simp
  from 1 2 3 show ?thesis by blast
qed

lemma api_step_result:
  "api_step m src c =
     (case call_raises c of
        Some e \<Rightarrow> Inl e
      | None \<Rightarrow> Inr (m\<lparr>messages := messages m @ logged src [c],
                       static_tasks := static_tasks m @ added_tasks src [c],
                       task_providers := task_providers m @ added_providers src [c],
                       app_hooks := app_hooks m @ added_hooks src [c]\<rparr>))"
proof (cases c)
  case (AddTask x)
  then show ?thesis by (cases x) (simp_all add: register_task_def)
next
  case (ProvideTasks x)
  then show ?thesis by (cases x) (simp_all add: register_task_provider_def)
next
  case (OnAppReady x)
  then show ?thesis by (cases x) (simp_all add: register_app_hook_def)
next
  case (Log msg lvl)
  then show ?thesis
    by (simp add: add_message_def Let_def queued_def normal_level_def)
qed

lemma added_tasks_Cons: "added_tasks src (c # cs) = added_tasks src [c] @ added_tasks src cs"
  by (cases "(src, c # cs)" rule: added_tasks.cases) auto

lemma added_providers_Cons:
  "added_providers src (c # cs) = added_providers src [c] @ added_providers src cs"
  by (cases "(src, c # cs)" rule: added_providers.cases) auto

lemma added_hooks_Cons: "added_hooks src (c # cs) = added_hooks src [c] @ added_hooks src cs"
  by (cases "(src, c # cs)" rule: added_hooks.cases) auto

lemma logged_Cons: "logged src (c # cs) = logged src [c] @ logged src cs"
  by (cases "(src, c # cs)" rule: logged.cases) auto

lemma run_calls_result:
  "run_calls m src cs =
     (m\<lparr>messages := messages m @ logged src (performed cs),
        static_tasks := static_tasks m @ added_tasks src (performed cs),
        task_providers := task_providers m @ added_providers src (performed cs),
        app_hooks := app_hooks m @ added_hooks src (performed cs)\<rparr>,
      first_raise cs)"
proof (induction cs arbitrary: m)
  case Nil
  then show ?case by simp
next
  case (Cons c cs)
  show ?case
  proof (cases "call_raises c")
    case None
    then show ?thesis
      using Cons [of "m\<lparr>messages := messages m @ logged src [c],
                       static_tasks := static_tasks m @ added_tasks src [c],
                       task_providers := task_providers m @ added_providers src [c],
                       app_hooks := app_hooks m @ added_hooks src [c]\<rparr>"]
        added_tasks_Cons [of src c "performed cs"] added_providers_Cons [of src c "performed cs"]
        added_hooks_Cons [of src c "performed cs"] logged_Cons [of src c "performed cs"]
      by (simp add: api_step_result)
  next
    case (Some e)
    then show ?thesis by (simp add: api_step_result)
  qed
qed

lemma run_registration_result:
  "run_registration m src r =
     (m\<lparr>messages := messages m @ logged src (performed (reg_calls r)),
        static_tasks := static_tasks m @ added_tasks src (performed (reg_calls r)),
        task_providers := task_providers m @ added_providers src (performed (reg_calls r)),
        app_hooks := app_hooks m @ added_hooks src (performed (reg_calls r))\<rparr>,
      registration_failure r)"
  by (simp add: run_registration_def run_calls_result registration_failure_def
      split: option.splits)

lemma activate_plugin_result:
  assumes "register_callable_of plugin = Some r"
  shows "activate_plugin m plugin src =
     m\<lparr>loaded_plugins :=
          (case registration_failure r of None \<Rightarrow> loaded_plugins m @ [src] | Some e \<Rightarrow> loaded_plugins m),
        messages := messages m @ logged src (performed (reg_calls r)) @
          [case registration_failure r of
             None \<Rightarrow> \<lparr>msg_source = src, msg_level = ''info'', msg_text = ''Registered plugin''\<rparr>
           | Some e \<Rightarrow> \<lparr>msg_source = src, msg_level = ''error'',
                        msg_text = ''Plugin raised '' @ e @ '' during registration''\<rparr>],
        static_tasks := static_tasks m @ added_tasks src (performed (reg_calls r)),
        task_providers := task_providers m @ added_providers src (performed (reg_calls r)),
        app_hooks := app_hooks m @ added_hooks src (performed (reg_calls r))\<rparr>"
proof (cases "registration_failure r")
  case None
  with assms show ?thesis
    by (simp add: activate_plugin_def run_registration_result add_message_def Let_def
        allowed_levels_def py_lower_def py_lower_char_def)
next
  case (Some e)
  with assms show ?thesis
    by (simp add: activate_plugin_def run_registration_result add_message_def Let_def
        allowed_levels_def py_lower_def py_lower_char_def)
qed

lemma loaded_plugins_activate_plugin:
  "loaded_plugins (activate_plugin m plugin src) =
     loaded_plugins m @ registered_names [(src, Loads plugin)]"
proof (cases "register_callable_of plugin")
  case None
  then show ?thesis by (simp add: activate_plugin_def)
next
  case (Some r)
  then show ?thesis
    by (cases "registration_failure r") (simp_all add: activate_plugin_result)
qed

lemma registered_names_Cons:
  "registered_names (e # es) = registered_names [e] @ registered_names es"
  by (cases "(e # es)" rule: registered_names.cases) (auto split: option.splits)

lemma loaded_plugins_discover:
  "loaded_plugins (discover m entries) = loaded_plugins m @ registered_names entries"
proof (induction m entries rule: discover.induct)
  case (1 m)
  then show ?case by simp
next
  case (2 m nm e rest)
  then show ?case by simp
next
  case (3 m nm plugin rest)
  then show ?case
    using registered_names_Cons [of "(nm, Loads plugin)" rest]
    by (simp add: loaded_plugins_activate_plugin del: registered_names.simps)
qed

text \<open>
  Claim C7. Let the plugin have a registration callable. If the callable raises (by itself,
  or through an API call that raises), the source is not added to the loaded plugins and one
  error message tagged with the source and carrying the exception is appended after whatever
  the plugin logged; if it returns, the source is appended to the loaded plugins and one info
  message is recorded. In both cases the tasks, providers and hooks contributed by the API
  calls made before the end of the callable are in the manager (no rollback), and discovery
  goes on with the entries after this one.
\<close>

theorem activate_plugin_failure_boundary:
  assumes "register_callable_of plugin = Some r"
  shows "(\<forall>e. registration_failure r = Some e \<longrightarrow>
            loaded_plugins (activate_plugin m plugin src) = loaded_plugins m
          \<and> messages (activate_plugin m plugin src) =
              messages m @ logged src (performed (reg_calls r)) @
              [\<lparr>msg_source = src, msg_level = ''error'',
                msg_text = ''Plugin raised '' @ e @ '' during registration''\<rparr>])
       \<and> (registration_failure r = None \<longrightarrow>
            loaded_plugins (activate_plugin m plugin src) = loaded_plugins m @ [src]
          \<and> messages (activate_plugin m plugin src) =
              messages m @ logged src (performed (reg_calls r)) @
              [\<lparr>msg_source = src, msg_level = ''info'', msg_text = ''Registered plugin''\<rparr>])
       \<and> static_tasks (activate_plugin m plugin src) =
            static_tasks m @ added_tasks src (performed (reg_calls r))
       \<and> task_providers (activate_plugin m plugin src) =
            task_providers m @ added_providers src (performed (reg_calls r))
       \<and> app_hooks (activate_plugin m plugin src) =
            app_hooks m @ added_hooks src (performed (reg_calls r))
       \<and> discover m ((src, Loads plugin) # rest) = discover (activate_plugin m plugin src) rest
       \<and> loaded_plugins (discover m ((src, Loads plugin) # rest)) =
            loaded_plugins (activate_plugin m plugin src) @ registered_names rest"
  using assms
  by (simp add: activate_plugin_result loaded_plugins_discover)

theorem activate_plugin_failure_boundary_witness:
  "register_callable_of \<lparr>po_register = Some failing_registration, po_call = None\<rparr>
     = Some failing_registration
   \<and> registration_failure failing_registration = Some ''RuntimeError('boom')''
   \<and> loaded_plugins (activate_plugin new_manager
         \<lparr>po_register = Some failing_registration, po_call = None\<rparr> ''bad'') = []
   \<and> messages (activate_plugin new_manager
         \<lparr>po_register = Some failing_registration, po_call = None\<rparr> ''bad'') =
       [\<lparr>msg_source = ''bad'', msg_level = ''warning'', msg_text = ''about to fail''\<rparr>,
        \<lparr>msg_source = ''bad'', msg_level = ''error'',
         msg_text = ''Plugin raised RuntimeError('boom') during registration''\<rparr>]
   \<and> static_tasks (activate_plugin new_manager
         \<lparr>po_register = Some failing_registration, po_call = None\<rparr> ''bad'') =
       [(''bad'', [(PStr ''name'', PStr ''early'')])]
   \<and> loaded_plugins (discover new_manager two_entries) = [''good'']"
proof -
  let ?p = "\<lparr>po_register = Some failing_registration, po_call = None\<rparr>"
  let ?rest = "[(''good'', Loads \<lparr>po_register = None, po_call = Some good_registration\<rparr>)]"
  have h: "register_callable_of ?p = Some failing_registration"
    by (simp add: register_callable_of_def)
  have f: "registration_failure failing_registration = Some ''RuntimeError('boom')''"
    by (simp add: registration_failure_def failing_registration_def)
  have p: "performed (reg_calls failing_registration) = reg_calls failing_registration"
    by (simp add: failing_registration_def)
  have lg: "logged ''bad'' (reg_calls failing_registration) =
      [\<lparr>msg_source = ''bad'', msg_level = ''warning'', msg_text = ''about to fail''\<rparr>]"
    by code_simp
  have e: "two_entries = (''bad'', Loads ?p) # ?rest"
    by (simp add: two_entries_def)
  have rn: "registered_names ?rest = [''good'']"
    by (simp add: register_callable_of_def registration_failure_def good_registration_def)
  note t = activate_plugin_failure_boundary [OF h, of new_manager "''bad''" ?rest]
  from t f have 1: "loaded_plugins (activate_plugin new_manager ?p ''bad'') = []"
    by (simp add: new_manager_def)
  from t f have 2: "messages (activate_plugin new_manager ?p ''bad'') =
       [\<lparr>msg_source = ''bad'', msg_level = ''warning'', msg_text = ''about to fail''\<rparr>,
        \<lparr>msg_source = ''bad'', msg_level = ''error'',
         msg_text = ''Plugin raised RuntimeError('boom') during registration''\<rparr>]"
    by (simp add: new_manager_def p lg)
  from t have 3: "static_tasks (activate_plugin new_manager ?p ''bad'') =
       [(''bad'', [(PStr ''name'', PStr ''early'')])]"
    by (simp add: new_manager_def p) (simp add: failing_registration_def)
  from t have "loaded_plugins (discover new_manager ((''bad'', Loads ?p) # ?rest)) =
      loaded_plugins (activate_plugin new_manager ?p ''bad'') @ registered_names ?rest"
    by blast
  then have 4: "loaded_plugins (discover new_manager two_entries) = [''good'']"
    by (simp only: 1 rn e append_Nil)
  from h f 1 2 3 4 show ?thesis by blast
qed






text \<open>
  A provider that returns an object which cannot be iterated is outside the \<open>try\<close>: the
  \<open>TypeError\<close> leaves \<open>collect_tasks\<close>, no message is recorded and the providers after
  it are not consulted.
\<close>

lemma collect_tasks_non_iterable_escapes:
  "collect_tasks number_provider ''/ws'' =
     (number_provider, Inl (''TypeError(\"'' @ [CHR 0x27] @ ''int'' @ [CHR 0x27] @ '' object is not iterable\")''))"
  by (simp add: collect_tasks_def number_provider_def new_manager_def)

section \<open>Properties of the task definitions\<close>








section \<open>Properties of the task runner and the pre-flight check\<close>



text \<open>
  The loop over the tokens returns the first token that does not look like an assignment,
  and nothing when every token does or when there is no token.
\<close>

lemma first_command_token_find:
  "first_command_token tokens = List.find (\<lambda>t. \<not> looks_like_assignment t) tokens"
  by (induction tokens) (auto simp: looks_like_assignment_def Let_def)

lemma extract_missing_tool: "extract_primary_command missing_tool = Some ''nonexistent-tool-xyz''"
  by code_simp

lemma extract_empty_word: "extract_primary_command empty_word_command = Some []"
  by code_simp

text \<open>
  With no task in flight and a leading executable that is a non-empty word which does not
  resolve on the search path, \<open>_start_task\<close> schedules nothing, writes one console line and
  sends one error notification naming the executable (after the notification of a failed
  autosave, if there was one), and no task is in flight afterwards.
\<close>

lemma start_task_refuses_missing:
  assumes "\<not> in_flight app"
    and "extract_primary_command (command task) = Some exe"
    and "exe \<noteq> []"
    and "which h exe = None"
  shows "scheduled (start_task h app task) = scheduled app
       \<and> running_task (start_task h app task) = running_task app
       \<and> notifications (start_task h app task) =
           notifications app @ autosave_failure h app @ [(missing_message exe, Error)]
       \<and> console (start_task h app task) =
           console app @ [''[red]'' @ missing_message exe @ ''[/red]'']
       \<and> \<not> in_flight (start_task h app task)"
  using assms
  by (auto simp: start_task_def in_flight_def detect_missing_executable_def Let_def notify_def
      log_def autosave_failure_def split: option.splits sum.splits)

text \<open>
  The example of the specification: the tool is reported and nothing is scheduled, and a
  task whose executable is found can be started afterwards.
\<close>

lemma start_task_missing_tool_example:
  "start_task bare_host fresh_app (demo_task missing_tool) =
     fresh_app
       \<lparr>notifications := [(missing_message ''nonexistent-tool-xyz'', Error)],
        console := [''[red]'' @ missing_message ''nonexistent-tool-xyz'' @ ''[/red]'']\<rparr>
   \<and> scheduled (start_task bare_host fresh_app (demo_task missing_tool)) = []
   \<and> scheduled (start_task (bare_host\<lparr>which := (\<lambda>exe. Some (''/usr/bin/'' @ exe))\<rparr>)
         (start_task bare_host fresh_app (demo_task missing_tool)) (demo_task ''make'')) =
       [demo_task ''make'']"
proof -
  have e: "extract_primary_command ''make'' = Some ''make''" by code_simp
  show ?thesis
    by (simp add: start_task_def detect_missing_executable_def extract_missing_tool e
        bare_host_def fresh_app_def demo_task_def notify_def log_def)
qed

text \<open>
  Claim C3 fails for a command whose leading word is an empty quoted string, as in
  \<open>'' --flag\<close>: the token is the empty string, which does not resolve on any search path,
  and \<open>_detect_missing_executable\<close> returns it as missing; but \<open>_start_task\<close> tests the
  result with \<open>if missing:\<close>, the empty string is falsy, and the task is started without
  any notification or console line.
\<close>

theorem start_task_empty_word_is_started:
  "extract_primary_command empty_word_command = Some []
   \<and> which bare_host [] = None
   \<and> start_task bare_host fresh_app (demo_task empty_word_command) =
       fresh_app\<lparr>running_task :=
                    Some \<lparr>handle_task = demo_task empty_word_command, handle_done = False\<rparr>,
                  scheduled := [demo_task empty_word_command]\<rparr>"
  by (simp add: start_task_def detect_missing_executable_def extract_empty_word bare_host_def
      fresh_app_def demo_task_def)

text \<open>
  Claim C6 fails for a quoted word with an equals sign, as in \<open>'FOO=1' ls\<close>:
  \<open>shlex.split\<close> in POSIX mode removes the quotes, so the token is \<open>FOO=1\<close>, the test
  \<open>token.startswith(("'", '"'))\<close> does not see that the word was quoted, and the token is
  passed over as an assignment; the candidate is \<open>ls\<close>.
\<close>

theorem quoted_assignment_is_skipped:
  "shlex_split quoted_assignment_command = Some [''FOO=1'', ''ls'']
   \<and> extract_primary_command quoted_assignment_command = Some ''ls''"
  by code_simp

lemma py_rstrip_Nil [simp]: "py_rstrip [] = []"
  by (simp add: py_rstrip_def)

lemma py_rstrip_empty_iff: "py_rstrip s = [] \<longleftrightarrow> (\<forall>c \<in> set s. py_isspace c)"
  by (simp add: py_rstrip_def dropWhile_eq_Nil_conv)

lemma py_rstrip_Cons:
  "py_rstrip (c # cs) = (if py_rstrip cs = [] \<and> py_isspace c then [] else c # py_rstrip cs)"
  by (auto simp: py_rstrip_def dropWhile_append dropWhile_eq_Nil_conv)

lemma py_rstrip_idem [simp]: "py_rstrip (py_rstrip s) = py_rstrip s"
  by (induction s) (auto simp: py_rstrip_Cons)

lemma cut_at_all_space:
  "py_rstrip s = [] \<Longrightarrow> py_rstrip (cut_at sep s) = []"
  by (induction s) (auto simp: py_rstrip_Cons split: if_splits)

lemma not_space_sep [simp]:
  "\<not> py_isspace (CHR ''&'')" "\<not> py_isspace (CHR ''|'')" "\<not> py_isspace (CHR '';'')"
  "py_isspace (CHR 0x0A)"
  by (simp_all add: py_isspace_def)

lemma startswith_rstrip:
  assumes "sep \<in> set separators"
  shows "startswith (c # py_rstrip cs) sep \<longleftrightarrow> startswith (c # cs) sep"
proof (cases cs)
  case Nil
  then show ?thesis by simp
next
  case (Cons d ds)
  with assms show ?thesis
    by (auto simp: separators_def startswith_def py_rstrip_Cons)
qed

lemma cut_at_rstrip:
  assumes "sep \<in> set separators"
  shows "py_rstrip (cut_at sep (py_rstrip s)) = py_rstrip (cut_at sep s)"
proof (induction s)
  case Nil
  then show ?case by simp
next
  case (Cons c cs)
  show ?case
  proof (cases "py_rstrip cs = [] \<and> py_isspace c")
    case True
    then have "py_rstrip (c # cs) = []" by (simp add: py_rstrip_Cons)
    then show ?thesis using cut_at_all_space [of "c # cs" sep] by simp
  next
    case False
    then have r: "py_rstrip (c # cs) = c # py_rstrip cs" by (auto simp: py_rstrip_Cons)
    have sw: "startswith (c # py_rstrip cs) sep \<longleftrightarrow> startswith (c # cs) sep"
      by (rule startswith_rstrip [OF assms])
    show ?thesis
    proof (cases "startswith (c # cs) sep")
      case True
      with sw show ?thesis by (simp add: r)
    next
      case nsw: False
      with sw have "cut_at sep (py_rstrip (c # cs)) = c # cut_at sep (py_rstrip cs)"
        by (simp add: r)
      then have "py_rstrip (cut_at sep (py_rstrip (c # cs))) =
          py_rstrip (c # cut_at sep (py_rstrip cs))"
        by simp
      also have "\<dots> = py_rstrip (c # cut_at sep cs)"
        using Cons.IH by (simp only: py_rstrip_Cons)
      also have "\<dots> = py_rstrip (cut_at sep (c # cs))"
        using nsw by simp
      finally show ?thesis .
    qed
  qed
qed

lemma cut_at_cong:
  assumes "sep \<in> set separators" and "py_rstrip x = py_rstrip y"
  shows "py_rstrip (cut_at sep x) = py_rstrip (cut_at sep y)"
  using assms cut_at_rstrip [of sep x] cut_at_rstrip [of sep y] by simp

lemma py_lstrip_fixed_iff: "py_lstrip s = s \<longleftrightarrow> s = [] \<or> \<not> py_isspace (hd s)"
proof (cases s)
  case Nil
  then show ?thesis by (simp add: py_lstrip_def)
next
  case (Cons a list)
  then show ?thesis
    using length_dropWhile_le [of py_isspace list]
    by (auto simp: py_lstrip_def)
qed

lemma py_lstrip_idem [simp]: "py_lstrip (py_lstrip s) = py_lstrip s"
  by (simp add: py_lstrip_def)

lemma lstrip_cut_at: "py_lstrip s = s \<Longrightarrow> py_lstrip (cut_at sep s) = cut_at sep s"
  by (cases s) (auto simp: py_lstrip_fixed_iff)

lemma lstrip_rstrip: "py_lstrip s = s \<Longrightarrow> py_lstrip (py_rstrip s) = py_rstrip s"
  by (cases s) (auto simp: py_lstrip_fixed_iff py_rstrip_Cons)

lemma before_first_cut_at:
  "sep \<noteq> [] \<Longrightarrow> (case before_first sep s of Some h \<Rightarrow> h | None \<Rightarrow> s) = cut_at sep s"
  by (induction s) (auto simp: startswith_def split: option.splits)

lemma before_first_Some: "sep \<noteq> [] \<Longrightarrow> before_first sep s = Some h \<Longrightarrow> h = cut_at sep s"
  using before_first_cut_at [of sep s] by simp

lemma before_first_None: "sep \<noteq> [] \<Longrightarrow> before_first sep s = None \<Longrightarrow> cut_at sep s = s"
  using before_first_cut_at [of sep s] by simp

lemma truncate_at_cut:
  assumes "sep \<noteq> []" and "py_lstrip s = s" and "py_rstrip s = s"
  shows "truncate_at s sep = py_rstrip (cut_at sep s)"
proof (cases "before_first sep s")
  case None
  with assms before_first_None [of sep s] show ?thesis
    by (simp add: truncate_at_def)
next
  case (Some h)
  with assms(1) have h: "h = cut_at sep s" by (rule before_first_Some)
  with assms(2) have "py_lstrip h = h" by (simp add: lstrip_cut_at)
  with Some h show ?thesis
    by (simp add: truncate_at_def py_strip_def)
qed

lemma separators_nonempty: "sep \<in> set separators \<Longrightarrow> sep \<noteq> []"
  by (auto simp: separators_def)

lemma foldl_truncate_at:
  assumes "set seps \<subseteq> set separators"
    and "py_lstrip s = s" and "py_rstrip s = s" and "py_rstrip x = s" and "py_lstrip x = x"
  shows "foldl truncate_at s seps = py_rstrip (foldl (\<lambda>a sep. cut_at sep a) x seps)"
  using assms
proof (induction seps arbitrary: s x)
  case Nil
  then show ?case by simp
next
  case (Cons sep seps)
  from Cons.prems have sep: "sep \<in> set separators" and rest: "set seps \<subseteq> set separators"
    by simp_all
  have t: "truncate_at s sep = py_rstrip (cut_at sep s)"
    using separators_nonempty [OF sep] Cons.prems(2,3) by (rule truncate_at_cut)
  have c: "py_rstrip (cut_at sep x) = truncate_at s sep"
    using cut_at_cong [OF sep, of x s] Cons.prems(3,4) t by simp
  have l: "py_lstrip (truncate_at s sep) = truncate_at s sep"
    using Cons.prems(2) by (simp add: t lstrip_rstrip lstrip_cut_at)
  have r: "py_rstrip (truncate_at s sep) = truncate_at s sep"
    by (simp add: t)
  have lx: "py_lstrip (cut_at sep x) = cut_at sep x"
    using Cons.prems(5) by (rule lstrip_cut_at)
  show ?case
    using Cons.IH [OF rest l r c lx] by simp
qed

lemma startswith_cut_amp: "startswith (cut_at ''&&'' cs) ''|'' \<longleftrightarrow> startswith cs ''|''"
  by (cases cs) (auto simp: startswith_def)

lemma startswith_amp2: "startswith (d # cs) ''&&'' \<longleftrightarrow> d = CHR ''&'' \<and> startswith cs ''&''"
  by (cases cs) (auto simp: startswith_def)

lemma startswith_bar2:
  "startswith (d # cut_at ''&&'' cs) ''||'' \<longleftrightarrow> d = CHR ''|'' \<and> startswith cs ''|''"
  using startswith_cut_amp [of cs] by (cases "cut_at ''&&'' cs") (auto simp: startswith_def)

lemma startswith_single: "startswith (d # xs) [e] \<longleftrightarrow> d = e"
  by (simp add: startswith_def)

lemma cuts_first_segment:
  "foldl (\<lambda>a sep. cut_at sep a) s separators = first_segment s"
proof -
  have "cut_at [CHR 0x0A] (cut_at '';'' (cut_at ''|'' (cut_at ''||'' (cut_at ''&&'' s)))) =
      first_segment s"
    by (induction s) (simp_all add: startswith_amp2 startswith_bar2 startswith_single)
  then show ?thesis by (simp add: separators_def)
qed

lemma first_segment_append:
  assumes "sep \<in> set separators" and "sep = ''&&'' \<longrightarrow> c = [] \<or> last c \<noteq> CHR ''&''"
  shows "first_segment (c @ sep @ rest) = first_segment c"
  using assms(2)
proof (induction c)
  case Nil
  from assms(1) show ?case
    by (auto simp: separators_def startswith_def)
next
  case (Cons x xs)
  show ?case
  proof (cases xs)
    case Nil
    have "x = CHR ''&'' \<Longrightarrow> \<not> startswith (sep @ rest) ''&''"
      using assms(1) Cons.prems Nil by (auto simp: separators_def startswith_def)
    moreover have "first_segment (sep @ rest) = []"
      using assms(1) by (auto simp: separators_def startswith_def)
    ultimately show ?thesis
      using Nil by (auto simp: startswith_def)
  next
    case (Cons y ys)
    with Cons.prems have "sep = ''&&'' \<longrightarrow> xs = [] \<or> last xs \<noteq> CHR ''&''"
      by simp
    from Cons.IH [OF this] Cons show ?thesis
      by (simp add: startswith_def)
  qed
qed

lemma foldl_cut_at_cong:
  assumes "set seps \<subseteq> set separators" and "py_rstrip x = py_rstrip y"
  shows "py_rstrip (foldl (\<lambda>a sep. cut_at sep a) x seps) =
         py_rstrip (foldl (\<lambda>a sep. cut_at sep a) y seps)"
  using assms
proof (induction seps arbitrary: x y)
  case Nil
  then show ?case by simp
next
  case (Cons sep seps)
  from Cons.prems have "sep \<in> set separators" by simp
  then have "py_rstrip (cut_at sep x) = py_rstrip (cut_at sep y)"
    using Cons.prems(2) by (rule cut_at_cong)
  with Cons.IH [of "cut_at sep x" "cut_at sep y"] Cons.prems(1) show ?case by simp
qed

lemma first_segment_rstrip:
  "py_rstrip (first_segment (py_rstrip y)) = py_rstrip (first_segment y)"
proof -
  have "py_rstrip (py_rstrip y) = py_rstrip y" by simp
  with foldl_cut_at_cong [of separators "py_rstrip y" y]
  have "py_rstrip (foldl (\<lambda>a sep. cut_at sep a) (py_rstrip y) separators) =
      py_rstrip (foldl (\<lambda>a sep. cut_at sep a) y separators)"
    by blast
  then show ?thesis by (simp only: cuts_first_segment)
qed

lemma py_strip_empty_iff: "py_strip s = [] \<longleftrightarrow> (\<forall>c \<in> set s. py_isspace c)"
proof -
  show ?thesis
  proof
    assume "py_strip s = []"
    then have a: "\<forall>c \<in> set (dropWhile py_isspace s). py_isspace c"
      by (simp add: py_strip_def py_lstrip_def py_rstrip_empty_iff)
    show "\<forall>c \<in> set s. py_isspace c"
    proof (rule ccontr)
      assume "\<not> (\<forall>c \<in> set s. py_isspace c)"
      then have "dropWhile py_isspace s \<noteq> []"
        by (simp add: dropWhile_eq_Nil_conv)
      then have "\<not> py_isspace (hd (dropWhile py_isspace s))"
        by (rule hd_dropWhile)
      moreover have "hd (dropWhile py_isspace s) \<in> set (dropWhile py_isspace s)"
        using \<open>dropWhile py_isspace s \<noteq> []\<close> by simp
      ultimately show False using a by blast
    qed
  next
    assume "\<forall>c \<in> set s. py_isspace c"
    then have "dropWhile py_isspace s = []"
      by (simp add: dropWhile_eq_Nil_conv)
    then show "py_strip s = []"
      unfolding py_strip_def py_lstrip_def by (simp only: py_rstrip_Nil)
  qed
qed


lemma extract_by_first_segment:
  assumes "py_strip u \<noteq> []"
  shows "extract_primary_command u =
     (case shlex_split (py_rstrip (first_segment (py_lstrip u))) of
        None \<Rightarrow> None
      | Some tokens \<Rightarrow> first_command_token tokens)"
proof -
  let ?s = "py_strip u"
  have l: "py_lstrip ?s = ?s"
    by (simp add: py_strip_def lstrip_rstrip)
  have r: "py_rstrip ?s = ?s"
    by (simp add: py_strip_def)
  have "foldl truncate_at ?s separators = py_rstrip (foldl (\<lambda>a sep. cut_at sep a) ?s separators)"
    using foldl_truncate_at [of separators ?s ?s] l r by simp
  also have "\<dots> = py_rstrip (first_segment (py_rstrip (py_lstrip u)))"
    by (simp add: cuts_first_segment py_strip_def)
  also have "\<dots> = py_rstrip (first_segment (py_lstrip u))"
    by (rule first_segment_rstrip)
  finally have "foldl truncate_at ?s separators = py_rstrip (first_segment (py_lstrip u))" .
  with assms show ?thesis
    by (simp add: extract_primary_command_def Let_def)
qed


text \<open>
  Claim C5. Take a command that is not blank and follow it by one of the operators
  \<open>&&\<close>, \<open>||\<close>, \<open>|\<close>, \<open>;\<close> or a newline and by any further text: the pre-flight
  check extracts the same leading executable as for the command alone. (When the operator is
  \<open>&&\<close> the command must not itself end in \<open>&\<close>, or the first \<open>&&\<close> of the combined
  string would begin inside the command.)
\<close>

theorem extract_ignores_trailing_segments:
  assumes "sep \<in> set separators"
    and "py_strip cmd \<noteq> []"
    and "sep = ''&&'' \<longrightarrow> last cmd \<noteq> CHR ''&''"
  shows "extract_primary_command (cmd @ sep @ rest) = extract_primary_command cmd"
proof -
  from assms(2) obtain c where c: "c \<in> set cmd" "\<not> py_isspace c"
    by (auto simp: py_strip_empty_iff)
  then have app: "py_lstrip (cmd @ sep @ rest) = py_lstrip cmd @ sep @ rest"
    by (simp add: py_lstrip_def dropWhile_append1)
  from c have ne: "py_strip (cmd @ sep @ rest) \<noteq> []"
    by (auto simp: py_strip_empty_iff)
  from c have dne: "py_lstrip cmd \<noteq> []"
    by (auto simp: py_lstrip_def dropWhile_eq_Nil_conv)
  have "cmd = takeWhile py_isspace cmd @ py_lstrip cmd"
    by (simp add: py_lstrip_def)
  then have "last cmd = last (py_lstrip cmd)"
    using dne by (metis last_appendR)
  with assms(3) have "sep = ''&&'' \<longrightarrow> py_lstrip cmd = [] \<or> last (py_lstrip cmd) \<noteq> CHR ''&''"
    by simp
  with assms(1) have "first_segment (py_lstrip cmd @ sep @ rest) = first_segment (py_lstrip cmd)"
    by (rule first_segment_append)
  then show ?thesis
    by (simp only: extract_by_first_segment [OF ne] extract_by_first_segment [OF assms(2)] app)
qed

lemma example_command:
  "example_head @ ''&&'' @ example_tail = ''FOO=1 dpkg-buildpackage -us -uc && echo done''"
  by (simp add: example_head_def example_tail_def)

lemma extract_example_head: "extract_primary_command example_head = Some ''dpkg-buildpackage''"
  by code_simp

theorem extract_ignores_trailing_segments_witness:
  "''&&'' \<in> set separators
   \<and> py_strip example_head \<noteq> []
   \<and> last example_head \<noteq> CHR ''&''
   \<and> extract_primary_command ''FOO=1 dpkg-buildpackage -us -uc && echo done'' =
       Some ''dpkg-buildpackage''"
proof -
  have a: "''&&'' \<in> set separators" by (simp add: separators_def)
  have b: "py_strip example_head \<noteq> []" by code_simp
  have c: "last example_head \<noteq> CHR ''&''" by (simp add: example_head_def)
  from c have c': "''&&'' = ''&&'' \<longrightarrow> last example_head \<noteq> CHR ''&''" by simp
  have "extract_primary_command (example_head @ ''&&'' @ example_tail) =
      extract_primary_command example_head"
    using a b c' by (rule extract_ignores_trailing_segments)
  then have "extract_primary_command ''FOO=1 dpkg-buildpackage -us -uc && echo done'' =
       Some ''dpkg-buildpackage''"
    by (simp only: example_command extract_example_head)
  with a b c show ?thesis by blast
qed

text \<open>
  The two side conditions are needed: after a blank command a newline is stripped with it, and
  a command ending in \<open>&\<close> runs into a following \<open>&&\<close>.
\<close>

lemma extract_after_blank_command:
  "extract_primary_command [] = None \<and> extract_primary_command ([] @ [CHR 0x0A] @ ''ls'') = Some ''ls''"
  by code_simp

lemma extract_ampersand_runs_on:
  "extract_primary_command ''a&'' = Some ''a&'' \<and> extract_primary_command (''a&'' @ ''&&'' @ ''b'') = Some ''a''"
  by code_simp

end
